theory Spec2Isabelle
  imports Complex_Main "HOL-Library.Multiset"
begin

section \<open>Strings of the server\<close>

text \<open>
  A string of the server is a sequence of UTF-16 code units. The model takes the code
  units below 256 (the Latin-1 block), one \<^typ>\<open>char\<close> each, so \<^const>\<open>length\<close> is the
  \<^verbatim>\<open>length\<close> of the source. The built-in string methods the server calls are written
  out for that range.
\<close>

abbreviation CR :: char where "CR \<equiv> CHR 0x0D"
abbreviation LF :: char where "LF \<equiv> CHR 0x0A"
abbreviation QUOTE :: char where "QUOTE \<equiv> CHR 0x27"

text \<open>
  \<^verbatim>\<open>toLowerCase\<close>: the capital letters of the range are \<^verbatim>\<open>A\<close> to \<^verbatim>\<open>Z\<close> and 0xC0 to 0xDE
  without the multiplication sign 0xD7; the small letter is 32 above.
\<close>

definition lowerUnit :: "char \<Rightarrow> char" where
  "lowerUnit c =
     (let k = (of_char c :: nat)
      in if (65 \<le> k \<and> k \<le> 90) \<or> (192 \<le> k \<and> k \<le> 222 \<and> k \<noteq> 215)
         then char_of (k + 32) else c)"

definition toLowerCase :: "string \<Rightarrow> string" where
  "toLowerCase s = map lowerUnit s"

text \<open>\<^verbatim>\<open>s.substr(i, n)\<close> for an index and a length that are natural numbers.\<close>

definition substr :: "string \<Rightarrow> nat \<Rightarrow> nat \<Rightarrow> string" where
  "substr s i n = take n (drop i s)"

text \<open>\<^verbatim>\<open>trim\<close> removes the white space and the line terminators at both ends.\<close>

definition isWhiteSpace :: "char \<Rightarrow> bool" where
  "isWhiteSpace c =
     (c = CHR 0x09 \<or> c = LF \<or> c = CHR 0x0B \<or> c = CHR 0x0C \<or> c = CR
      \<or> c = CHR '' '' \<or> c = CHR 0xA0)"

definition trim :: "string \<Rightarrow> string" where
  "trim s = rev (dropWhile isWhiteSpace (rev (dropWhile isWhiteSpace s)))"

text \<open>\<^verbatim>\<open>s.includes(t)\<close>: \<open>t\<close> occurs in \<open>s\<close> at some position.\<close>

fun includesString :: "string \<Rightarrow> string \<Rightarrow> bool" where
  "includesString [] t = (t = [])"
| "includesString (c # s) t = (take (length t) (c # s) = t \<or> includesString s t)"

text \<open>\<^verbatim>\<open>text.split('')\<close>: one string of a single code unit for each code unit.\<close>

definition split :: "string \<Rightarrow> string list" where
  "split text = map (\<lambda>c. [c]) text"

text \<open>
  Reading an array at an index: \<^verbatim>\<open>undefined\<close> (here \<open>None\<close>) outside the array, also
  at a negative index.
\<close>

definition elementAt :: "'a list \<Rightarrow> int \<Rightarrow> 'a option" where
  "elementAt xs i = (if 0 \<le> i \<and> i < int (length xs) then Some (xs ! nat i) else None)"

section \<open>Similarity of two strings\<close>

text \<open>
  The \<^verbatim>\<open>Map\<close> from substrings to numbers of occurrences. The first loop of
  \<^verbatim>\<open>stringSimilarity\<close> counts the substrings of \<open>str1\<close>, the second one walks the
  substrings of \<open>str2\<close> and takes one occurrence away at each match.
\<close>

type_synonym counts = "string \<rightharpoonup> nat"

definition loopBound :: "string \<Rightarrow> nat \<Rightarrow> nat" where
  \<comment> \<open>\<^verbatim>\<open>str.length - (substringLength - 1)\<close>, the loops run while the index is below it\<close>
  "loopBound str substringLength = nat (int (length str) - (int substringLength - 1))"

definition countStep :: "string \<Rightarrow> nat \<Rightarrow> nat \<Rightarrow> counts \<Rightarrow> counts" where
  "countStep str1 substringLength i m =
     (let substr1 = substr str1 i substringLength
      in m(substr1 \<mapsto> (case m substr1 of Some c \<Rightarrow> c + 1 | None \<Rightarrow> 1)))"

definition matchStep :: "string \<Rightarrow> nat \<Rightarrow> nat \<Rightarrow> counts \<times> nat \<Rightarrow> counts \<times> nat" where
  "matchStep str2 substringLength j st =
     (let substr2 = substr str2 j substringLength;
          count = (case fst st substr2 of Some c \<Rightarrow> c | None \<Rightarrow> 0)
      in if count > 0 then ((fst st)(substr2 \<mapsto> count - 1), snd st + 1) else st)"

definition substringMap :: "string \<Rightarrow> nat \<Rightarrow> counts" where
  "substringMap str1 substringLength =
     fold (countStep str1 substringLength) [0..<loopBound str1 substringLength] Map.empty"

definition matchCount :: "string \<Rightarrow> string \<Rightarrow> nat \<Rightarrow> nat" where
  "matchCount str1 str2 substringLength =
     snd (fold (matchStep str2 substringLength) [0..<loopBound str2 substringLength]
            (substringMap str1 substringLength, 0))"

text \<open>
  The score is the quotient of two integers. The source divides them as floating point
  numbers; the quotient is kept exact here, as a rational number.
\<close>

definition stringSimilarity :: "string \<Rightarrow> string \<Rightarrow> nat \<Rightarrow> bool \<Rightarrow> rat" where
  "stringSimilarity s1 s2 substringLength caseSensitive =
     (let str1 = (if \<not> caseSensitive then toLowerCase s1 else s1);
          str2 = (if \<not> caseSensitive then toLowerCase s2 else s2)
      in if length str1 < substringLength \<or> length str2 < substringLength then 0
         else of_int (int (matchCount str1 str2 substringLength) * 2)
              / of_int (int (length str1) + int (length str2)
                        - (int substringLength - 1) * 2))"

section \<open>The known tokens\<close>

definition knownTokens :: "string list" where
  "knownTokens = [''characters'', ''project'']"

fun findKeywordIn :: "string list \<Rightarrow> string \<Rightarrow> string option" where
  "findKeywordIn [] word = None"
| "findKeywordIn (token # tokens) word =
     (if stringSimilarity word token 2 False > 7 / 10 then Some token
      else findKeywordIn tokens word)"

definition findKeyword :: "string \<Rightarrow> string option" where
  "findKeyword word = findKeywordIn knownTokens word"

section \<open>Validation of a document\<close>

datatype DiagnosticSeverity = Error | Warning | Information | Hint

text \<open>
  The range of a diagnostic is kept as the two offsets that the source hands to
  \<^verbatim>\<open>textDocument.positionAt\<close>.
\<close>

record Diagnostic =
  severity :: DiagnosticSeverity
  rangeStart :: int
  rangeEnd :: int
  message :: string
  source :: string

record Settings =
  maxNumberOfProblems :: int

definition defaultSettings :: Settings where
  "defaultSettings = \<lparr>maxNumberOfProblems = 1000\<rparr>"

datatype exn = TypeError

text \<open>
  The variables of \<^verbatim>\<open>validateTextDocument\<close> that the callback of \<^verbatim>\<open>forEach\<close> updates.
  \<^verbatim>\<open>expectingSemicolon\<close> is declared without a value: \<open>None\<close> is \<^verbatim>\<open>undefined\<close>.
\<close>

record ScanState =
  diagnostics :: "Diagnostic list"
  offset :: int
  formingWord :: string
  keywordMatched :: bool
  userDefinedString :: bool
  expectingSemicolon :: "bool option"

definition initialState :: ScanState where
  "initialState =
     \<lparr>diagnostics = [], offset = 0, formingWord = [], keywordMatched = False,
      userDefinedString = False, expectingSemicolon = None\<rparr>"

definition unresolvedMessage :: "string \<Rightarrow> string \<Rightarrow> string" where
  "unresolvedMessage word correctedKeyword =
     ''Cannot find '' @ [QUOTE] @ word @ [QUOTE] @ ''. ''
     @ (if length correctedKeyword > 0
        then ''Did you mean '' @ [QUOTE] @ correctedKeyword @ [QUOTE] @ ''?'' else [])"

definition isEndOfWord :: "string \<Rightarrow> bool" where
  "isEndOfWord letter = (letter = '' '' \<or> letter = [CR] \<or> letter = [LF])"

text \<open>Lines 213 to 229: the end of a word.\<close>

definition wordBoundary :: "string \<Rightarrow> ScanState \<Rightarrow> ScanState" where
  "wordBoundary letter s0 =
     (let endOfWord = isEndOfWord letter;
          s = s0\<lparr>formingWord := formingWord s0 @ (if \<not> endOfWord then letter else [])\<rparr>
      in if endOfWord \<and> length (trim (formingWord s)) > 1 then
           (let correctedKeyword =
                  (case findKeyword (trim (formingWord s)) of Some t \<Rightarrow> t | None \<Rightarrow> []);
                diagnostic =
                  \<lparr>severity = Error,
                   rangeStart = offset s - int (length (formingWord s)),
                   rangeEnd = offset s,
                   message = unresolvedMessage (formingWord s) correctedKeyword,
                   source = ''LUMA''\<rparr>;
                s1 = (if \<not> keywordMatched s \<and> \<not> userDefinedString s
                      then s\<lparr>diagnostics := diagnostics s @ [diagnostic]\<rparr> else s)
            in s1\<lparr>formingWord := [], keywordMatched := False\<rparr>)
         else s)"

text \<open>
  Lines 230 to 247: the end of a line. \<^verbatim>\<open>letters[j - 1].includes\<close> is evaluated only
  when \<^verbatim>\<open>expectingSemicolon\<close> is true, and raises when \<^verbatim>\<open>letters[j - 1]\<close> is undefined.
\<close>

definition carriageReturn :: "string list \<Rightarrow> string \<Rightarrow> nat \<Rightarrow> ScanState \<Rightarrow> exn + ScanState" where
  "carriageReturn letters letter j s =
     (if letter = [CR] then
        (if expectingSemicolon s = Some True then
           (case elementAt letters (int j - 1) of
              None \<Rightarrow> Inl TypeError
            | Some previous \<Rightarrow>
                if \<not> includesString previous '';'' then
                  (let semicolonDiagnostic =
                         \<lparr>severity = Error,
                          rangeStart = offset s - 1,
                          rangeEnd = offset s,
                          message = ''Expected ; after project name.'',
                          source = ''LUMA''\<rparr>
                   in Inr (s\<lparr>diagnostics := diagnostics s @ [semicolonDiagnostic],
                             expectingSemicolon := Some False,
                             userDefinedString := False\<rparr>))
                else Inr (s\<lparr>expectingSemicolon := Some False, userDefinedString := False\<rparr>))
         else Inr (s\<lparr>expectingSemicolon := Some False, userDefinedString := False\<rparr>))
      else Inr s)"

text \<open>
  Lines 248 to 282: the switch on the word formed so far.
  \<^verbatim>\<open>letters[j + 2]?.length == 0\<close> compares \<^verbatim>\<open>undefined\<close> with 0 when there is no such
  letter, which is false.
\<close>

definition keywordTrigger :: "string list \<Rightarrow> nat \<Rightarrow> ScanState \<Rightarrow> ScanState" where
  "keywordTrigger letters j s =
     (if formingWord s = ''project'' then
        (let s1 = (if (case elementAt letters (int j + 2) of
                         None \<Rightarrow> False | Some ahead \<Rightarrow> length ahead = 0)
                   then s\<lparr>diagnostics := diagnostics s @
                            [\<lparr>severity = Error,
                              rangeStart = offset s,
                              rangeEnd = offset s + 2,
                              message = ''Expected project name.'',
                              source = ''LUMA''\<rparr>]\<rparr>
                   else s)
         in s1\<lparr>expectingSemicolon := Some True, keywordMatched := True,
                userDefinedString := True\<rparr>)
      else s)"

definition callback :: "string list \<Rightarrow> string \<Rightarrow> nat \<Rightarrow> ScanState \<Rightarrow> exn + ScanState" where
  "callback letters letter j s =
     (case carriageReturn letters letter j (wordBoundary letter s) of
        Inl e \<Rightarrow> Inl e
      | Inr s1 \<Rightarrow> (let s2 = keywordTrigger letters j s1 in Inr (s2\<lparr>offset := offset s2 + 1\<rparr>)))"

text \<open>\<^verbatim>\<open>forEach\<close> from index \<open>j\<close> on; an exception of the callback ends it.\<close>

fun forEach :: "('a \<Rightarrow> nat \<Rightarrow> 's \<Rightarrow> exn + 's) \<Rightarrow> 'a list \<Rightarrow> nat \<Rightarrow> 's \<Rightarrow> exn + 's" where
  "forEach f [] j s = Inr s"
| "forEach f (x # xs) j s =
     (case f x j s of Inl e \<Rightarrow> Inl e | Inr s' \<Rightarrow> forEach f xs (Suc j) s')"

text \<open>
  \<^verbatim>\<open>validateTextDocument\<close>, from the text of the document and the settings that
  \<^verbatim>\<open>getDocumentSettings\<close> has resolved.
\<close>

definition scan :: "string \<Rightarrow> exn + ScanState" where
  "scan text = (let letters = split text in forEach (callback letters) letters 0 initialState)"

definition validateTextDocument :: "Settings \<Rightarrow> string \<Rightarrow> exn + Diagnostic list" where
  "validateTextDocument settings text =
     (case scan text of Inl e \<Rightarrow> Inl e | Inr s \<Rightarrow> Inr (diagnostics s))"

section \<open>Completion\<close>

datatype CompletionItemKind = Keyword | OtherKind nat

datatype ItemData = Number int | Text string | Undefined

record CompletionItem =
  label :: string
  kind :: "CompletionItemKind option"
  data :: ItemData
  detail :: "string option"

record TextDocumentPositionParams =
  uri :: string
  line :: nat
  character :: nat

text \<open>The handler of \<^verbatim>\<open>connection.onCompletion\<close>; the position is the one of the request.\<close>

definition onCompletion :: "TextDocumentPositionParams \<Rightarrow> CompletionItem list" where
  "onCompletion textDocumentPosition =
     [\<lparr>label = ''characters'', kind = Some Keyword, data = Number 1, detail = None\<rparr>,
      \<lparr>label = ''project'', kind = Some Keyword, data = Number 2, detail = None\<rparr>]"

text \<open>The handler of \<^verbatim>\<open>connection.onCompletionResolve\<close>.\<close>

definition onCompletionResolve :: "CompletionItem \<Rightarrow> CompletionItem" where
  "onCompletionResolve item =
     (if data item = Number 1
      then item\<lparr>detail := Some ''Specifies all the characters in the project.''\<rparr>
      else item)"

section \<open>Notions for the proofs\<close>

text \<open>
  The state in which the callback is entered at index \<open>j\<close>: the one the first \<open>j\<close>
  letters leave.
\<close>

definition stateBefore :: "string \<Rightarrow> nat \<Rightarrow> exn + ScanState" where
  "stateBefore text j =
     (let letters = split text in forEach (callback letters) (take j letters) 0 initialState)"

text \<open>What holds of the state on entry at index \<open>j\<close>.\<close>

definition scanInv :: "nat \<Rightarrow> ScanState \<Rightarrow> bool" where
  "scanInv j s =
     (offset s = int j \<and> length (formingWord s) \<le> j
      \<and> (if expectingSemicolon s = Some True then 7 \<le> j else True))"

text \<open>
  The number that the \<^verbatim>\<open>Map\<close> holds for a key, 0 for a key it does not have, and the
  substrings that the loops of \<^verbatim>\<open>stringSimilarity\<close> visit, in their order.
\<close>

definition occurrences :: "counts \<Rightarrow> string \<Rightarrow> nat" where
  "occurrences m k = (case m k of Some c \<Rightarrow> c | None \<Rightarrow> 0)"

definition substrings :: "string \<Rightarrow> nat \<Rightarrow> string list" where
  "substrings str n = map (\<lambda>i. substr str i n) [0..<loopBound str n]"

section \<open>Properties of the similarity\<close>

text \<open>
  The \<^verbatim>\<open>Map\<close> after the first loop holds the multiset of the substrings of \<open>str1\<close>. A
  match of the second loop takes one element out of what the \<^verbatim>\<open>Map\<close> holds.
\<close>

lemma occurrences_empty: "occurrences Map.empty k = 0"
  by (simp add: occurrences_def)

lemma occurrences_countStep:
  "occurrences (countStep str n i m) k =
     occurrences m k + (if k = substr str i n then 1 else 0)"
  by (simp add: occurrences_def countStep_def Let_def split: option.splits)

lemma occurrences_fold_countStep:
  "occurrences (fold (countStep str n) is m) k =
     occurrences m k + count (mset (map (\<lambda>i. substr str i n) is)) k"
proof (induction "is" arbitrary: m)
  case Nil
  then show ?case by simp
next
  case (Cons i "is")
  then show ?case by (simp add: occurrences_countStep)
qed

lemma occurrences_substringMap:
  "occurrences (substringMap str n) k = count (mset (substrings str n)) k"
  unfolding substringMap_def substrings_def occurrences_fold_countStep
  by (simp add: occurrences_empty)

lemma occurrences_consume:
  assumes "\<And>k. occurrences m k = count R k"
  shows "occurrences (m(y \<mapsto> occurrences m y - 1)) k = count (R - {#y#}) k"
proof (cases "k = y")
  case True
  then show ?thesis using assms [of y] by (simp add: occurrences_def)
next
  case False
  then show ?thesis using assms [of k] by (simp add: occurrences_def)
qed

lemma matchStep_match:
  assumes "occurrences m (substr str j n) > 0"
  shows "matchStep str n j (m, c) =
           (m(substr str j n \<mapsto> occurrences m (substr str j n) - 1), c + 1)"
  using assms by (simp add: matchStep_def Let_def occurrences_def)

lemma matchStep_no_match:
  assumes "\<not> occurrences m (substr str j n) > 0"
  shows "matchStep str n j (m, c) = (m, c)"
  using assms by (simp add: matchStep_def Let_def occurrences_def)

lemma fold_matchStep_remaining:
  assumes "\<And>k. occurrences m k = count R k"
  shows "snd (fold (matchStep str n) js (m, c)) \<le> c + size R
         \<and> snd (fold (matchStep str n) js (m, c)) \<le> c + length js"
  using assms
proof (induction js arbitrary: m c R)
  case Nil
  then show ?case by simp
next
  case (Cons j js)
  let ?y = "substr str j n"
  show ?case
  proof (cases "occurrences m ?y > 0")
    case True
    with Cons.prems [of ?y] have mem: "?y \<in># R" by (simp add: count_greater_zero_iff [symmetric] del: count_greater_zero_iff)
    then have "R = add_mset ?y (R - {#?y#})" by simp
    then have sz: "size R = Suc (size (R - {#?y#}))" by (metis size_add_mset)
    from Cons.IH [of "m(?y \<mapsto> occurrences m ?y - 1)" "R - {#?y#}" "c + 1"]
      occurrences_consume [of m R ?y, OF Cons.prems]
    have "snd (fold (matchStep str n) js (m(?y \<mapsto> occurrences m ?y - 1), c + 1))
            \<le> c + 1 + size (R - {#?y#})
          \<and> snd (fold (matchStep str n) js (m(?y \<mapsto> occurrences m ?y - 1), c + 1))
            \<le> c + 1 + length js"
      by blast
    then show ?thesis
      unfolding fold_simps matchStep_match [OF True] sz by simp
  next
    case False
    from Cons.IH [of m R c, OF Cons.prems]
    show ?thesis unfolding fold_simps matchStep_no_match [OF False] by simp
  qed
qed

lemma fold_matchStep_all:
  assumes "\<And>k. occurrences m k = count R k"
    and "mset (map (\<lambda>j. substr str j n) js) \<subseteq># R"
  shows "snd (fold (matchStep str n) js (m, c)) = c + length js"
  using assms
proof (induction js arbitrary: m c R)
  case Nil
  then show ?case by simp
next
  case (Cons j js)
  let ?y = "substr str j n"
  from Cons.prems(2) have mem: "?y \<in># R"
    and rest: "mset (map (\<lambda>j. substr str j n) js) \<subseteq># R - {#?y#}"
    by (simp_all add: insert_subset_eq_iff)
  from mem Cons.prems(1) [of ?y] have pos: "occurrences m ?y > 0" by simp
  from Cons.IH [of "m(?y \<mapsto> occurrences m ?y - 1)" "R - {#?y#}" "c + 1", OF _ rest]
    occurrences_consume [of m R ?y, OF Cons.prems(1)]
  have "snd (fold (matchStep str n) js (m(?y \<mapsto> occurrences m ?y - 1), c + 1))
          = c + 1 + length js"
    by blast
  then show ?case unfolding fold_simps matchStep_match [OF pos] by simp
qed

lemma matchCount_le:
  "matchCount str1 str2 n \<le> loopBound str1 n" "matchCount str1 str2 n \<le> loopBound str2 n"
proof -
  have "\<And>k. occurrences (substringMap str1 n) k = count (mset (substrings str1 n)) k"
    by (rule occurrences_substringMap)
  from fold_matchStep_remaining [OF this, of str2 n "[0..<loopBound str2 n]" 0]
  show "matchCount str1 str2 n \<le> loopBound str1 n" "matchCount str1 str2 n \<le> loopBound str2 n"
    by (simp_all add: matchCount_def substrings_def)
qed

lemma matchCount_same: "matchCount str str n = loopBound str n"
proof -
  have "\<And>k. occurrences (substringMap str n) k = count (mset (substrings str n)) k"
    by (rule occurrences_substringMap)
  from fold_matchStep_all [OF this, of str n "[0..<loopBound str n]" 0]
  show ?thesis by (simp add: matchCount_def substrings_def)
qed

lemma length_toLowerCase: "length (toLowerCase s) = length s"
  by (simp add: toLowerCase_def)

text \<open>
  Claim C8: for all strings and every substring length \<open>n\<close> of at least 1, the score of
  \<^verbatim>\<open>stringSimilarity\<close> lies between 0 and 1. It is 0 when one of the strings, lower-cased
  unless the comparison is case sensitive, is shorter than \<open>n\<close>. For strings \<open>a\<close> and
  \<open>b\<close> of length at least \<open>n\<close> the number of matches is at most the number of substrings
  of length \<open>n\<close> of each of them, so twice that number is at most the denominator.
\<close>

theorem stringSimilarity_range:
  assumes "1 \<le> n"
  shows "0 \<le> stringSimilarity str1 str2 n caseSensitive
         \<and> stringSimilarity str1 str2 n caseSensitive \<le> 1
         \<and> (length (if caseSensitive then str1 else toLowerCase str1) < n
              \<or> length (if caseSensitive then str2 else toLowerCase str2) < n
            \<longrightarrow> stringSimilarity str1 str2 n caseSensitive = 0)
         \<and> (n \<le> length a \<and> n \<le> length b
            \<longrightarrow> int (matchCount a b n) \<le> int (length a) - int n + 1
                \<and> int (matchCount a b n) \<le> int (length b) - int n + 1
                \<and> 2 * int (matchCount a b n)
                    \<le> int (length a) + int (length b) - 2 * (int n - 1))"
proof -
  have bound: "int (matchCount a b n) \<le> int (length a) - int n + 1
        \<and> int (matchCount a b n) \<le> int (length b) - int n + 1
        \<and> 2 * int (matchCount a b n) \<le> int (length a) + int (length b) - 2 * (int n - 1)"
    if "n \<le> length a" and "n \<le> length b" for a b
  proof -
    from that have "int (loopBound a n) = int (length a) - int n + 1"
      and "int (loopBound b n) = int (length b) - int n + 1"
      by (simp_all add: loopBound_def)
    moreover from matchCount_le [of a b n]
    have "int (matchCount a b n) \<le> int (loopBound a n)"
      and "int (matchCount a b n) \<le> int (loopBound b n)"
      by simp_all
    ultimately show ?thesis by auto
  qed
  define x where "x = (if caseSensitive then str1 else toLowerCase str1)"
  define y where "y = (if caseSensitive then str2 else toLowerCase str2)"
  have sim: "stringSimilarity str1 str2 n caseSensitive =
      (if length x < n \<or> length y < n then 0
       else of_int (int (matchCount x y n) * 2)
            / of_int (int (length x) + int (length y) - (int n - 1) * 2))"
    by (simp add: stringSimilarity_def Let_def x_def y_def)
  have "0 \<le> stringSimilarity str1 str2 n caseSensitive
        \<and> stringSimilarity str1 str2 n caseSensitive \<le> 1"
  proof (cases "length x < n \<or> length y < n")
    case True
    then show ?thesis by (simp add: sim)
  next
    case False
    then have len: "n \<le> length x" "n \<le> length y" by simp_all
    let ?d = "int (length x) + int (length y) - (int n - 1) * 2"
    from len assms have pos: "0 < ?d" by simp
    from bound [OF len] have le: "int (matchCount x y n) * 2 \<le> ?d" by simp
    have "(of_int (int (matchCount x y n) * 2) :: rat) \<le> of_int ?d"
      using le by (simp only: of_int_le_iff)
    moreover have "(0::rat) < of_int ?d" using pos by (simp only: of_int_0_less_iff)
    moreover have "(0::rat) \<le> of_int (int (matchCount x y n) * 2)" by simp
    ultimately have "0 \<le> (of_int (int (matchCount x y n) * 2) :: rat) / of_int ?d
        \<and> (of_int (int (matchCount x y n) * 2) :: rat) / of_int ?d \<le> 1"
      by (simp only: divide_le_eq_1_pos zero_le_divide_iff) simp
    with False show ?thesis by (simp only: sim if_False)
  qed
  moreover have "stringSimilarity str1 str2 n caseSensitive = 0"
    if "length x < n \<or> length y < n"
    using that by (simp add: sim)
  ultimately show ?thesis using bound [of a b] unfolding x_def y_def by blast
qed

text \<open>
  The words \<^verbatim>\<open>charakters\<close> and \<^verbatim>\<open>characters\<close>, and a word shorter than the substring
  length.
\<close>

theorem stringSimilarity_range_witness:
  "(1::nat) \<le> 2
   \<and> 0 \<le> stringSimilarity ''charakters'' ''characters'' 2 False
   \<and> stringSimilarity ''charakters'' ''characters'' 2 False \<le> 1
   \<and> stringSimilarity ''a'' ''characters'' 2 False = 0
   \<and> 2 * int (matchCount ''charakters'' ''characters'' 2) = 14
   \<and> int (length ''charakters'') + int (length ''characters'') - 2 * (int 2 - 1) = 18"
proof -
  have h: "(1::nat) \<le> 2" by simp
  have "stringSimilarity ''a'' ''characters'' 2 False = 0" by code_simp
  moreover have "2 * int (matchCount ''charakters'' ''characters'' 2) = 14" by code_simp
  moreover have
    "int (length ''charakters'') + int (length ''characters'') - 2 * (int 2 - 1) = 18"
    by simp
  ultimately show ?thesis
    using h stringSimilarity_range [OF h, of "''charakters''" "''characters''" False]
    by blast
qed

text \<open>
  Claim C9: for every string \<open>s\<close> of length at least the substring length \<open>n\<close>, the
  similarity of \<open>s\<close> with itself is 1; every substring of \<open>s\<close> matches, so the number of
  matches is the length of \<open>s\<close> minus \<open>n\<close> plus 1.
\<close>

theorem stringSimilarity_same:
  assumes "n \<le> length s"
  shows "stringSimilarity s s n caseSensitive = 1
         \<and> int (matchCount s s n) = int (length s) - int n + 1"
proof -
  have same: "int (matchCount x x n) = int (length x) - int n + 1" if "n \<le> length x" for x
    using that by (simp add: matchCount_same loopBound_def)
  define x where "x = (if caseSensitive then s else toLowerCase s)"
  have len: "n \<le> length x" using assms by (simp add: x_def length_toLowerCase)
  let ?d = "int (length x) + int (length x) - (int n - 1) * 2"
  have "stringSimilarity s s n caseSensitive =
      of_int (int (matchCount x x n) * 2) / of_int ?d"
    using assms by (simp add: stringSimilarity_def Let_def x_def length_toLowerCase)
  also have "int (matchCount x x n) * 2 = ?d" using same [OF len] by simp
  also have "(of_int ?d :: rat) / of_int ?d = 1"
  proof -
    from len have "?d \<noteq> 0" by simp
    then have "(of_int ?d :: rat) \<noteq> 0" by simp
    then show ?thesis by (rule divide_self)
  qed
  finally show ?thesis using same [OF assms] by simp
qed

text \<open>The word \<^verbatim>\<open>project\<close> with substrings of length 2: six matches.\<close>

theorem stringSimilarity_same_witness:
  "(2::nat) \<le> length ''project''
   \<and> stringSimilarity ''project'' ''project'' 2 False = 1
   \<and> int (matchCount ''project'' ''project'' 2) = 6"
proof -
  have h: "(2::nat) \<le> length ''project''" by simp
  from stringSimilarity_same [OF h, of False] h show ?thesis by simp
qed

section \<open>Properties of the scan\<close>

subsection \<open>Where a diagnostic comes from\<close>

lemma unresolvedMessage_neq:
  "unresolvedMessage w k \<noteq> ''Expected ; after project name.''"
  "unresolvedMessage w k \<noteq> ''Expected project name.''"
  "''Expected ; after project name.'' \<noteq> unresolvedMessage w k"
  "''Expected project name.'' \<noteq> unresolvedMessage w k"
  by (simp_all add: unresolvedMessage_def)

lemma wordBoundary_diagnostics:
  assumes "d \<in> set (diagnostics (wordBoundary letter s))"
  shows "d \<in> set (diagnostics s) \<or> (\<exists>w k. message d = unresolvedMessage w k)"
proof (cases "isEndOfWord letter \<and> length (trim (formingWord s @ (if \<not> isEndOfWord letter then letter else []))) > 1
               \<and> \<not> keywordMatched s \<and> \<not> userDefinedString s")
  case True
  with assms have "d \<in> set (diagnostics s) \<or>
      message d = unresolvedMessage (formingWord s)
        (case findKeyword (trim (formingWord s)) of Some t \<Rightarrow> t | None \<Rightarrow> [])"
    by (auto simp: wordBoundary_def Let_def)
  then show ?thesis by blast
next
  case False
  with assms have "d \<in> set (diagnostics s)"
    by (auto simp: wordBoundary_def Let_def split: if_splits)
  then show ?thesis by simp
qed

lemma carriageReturn_diagnostics:
  assumes "carriageReturn letters letter j s = Inr s'" and "d \<in> set (diagnostics s')"
  shows "d \<in> set (diagnostics s)
         \<or> (letter = [CR] \<and> message d = ''Expected ; after project name.'')"
  using assms by (auto simp: carriageReturn_def Let_def split: if_splits option.splits)

lemma elementAt_in_set: "elementAt xs i = Some x \<Longrightarrow> x \<in> set xs"
  by (auto simp: elementAt_def split: if_splits)

lemma keywordTrigger_diagnostics:
  assumes "d \<in> set (diagnostics (keywordTrigger letters j s))"
  shows "d \<in> set (diagnostics s)
         \<or> (message d = ''Expected project name.'' \<and> [] \<in> set letters)"
  using assms
  by (auto simp: keywordTrigger_def Let_def split: if_splits option.splits
           dest: elementAt_in_set)

lemma callback_diagnostics:
  assumes "callback letters letter j s = Inr s'" and "d \<in> set (diagnostics s')"
  shows "d \<in> set (diagnostics s)
         \<or> (\<exists>w k. message d = unresolvedMessage w k)
         \<or> (letter = [CR] \<and> message d = ''Expected ; after project name.'')
         \<or> (message d = ''Expected project name.'' \<and> [] \<in> set letters)"
proof -
  from assms(1) obtain s1 where
    cr: "carriageReturn letters letter j (wordBoundary letter s) = Inr s1" and
    s': "s' = (keywordTrigger letters j s1)\<lparr>offset := offset (keywordTrigger letters j s1) + 1\<rparr>"
    by (auto simp: callback_def Let_def split: sum.splits)
  from assms(2) s' have "d \<in> set (diagnostics (keywordTrigger letters j s1))" by simp
  then consider "d \<in> set (diagnostics s1)"
    | "message d = ''Expected project name.'' \<and> [] \<in> set letters"
    using keywordTrigger_diagnostics by blast
  then show ?thesis
  proof cases
    case 1
    with cr carriageReturn_diagnostics
    have "d \<in> set (diagnostics (wordBoundary letter s))
          \<or> (letter = [CR] \<and> message d = ''Expected ; after project name.'')"
      by blast
    with wordBoundary_diagnostics show ?thesis by blast
  next
    case 2
    then show ?thesis by simp
  qed
qed

lemma forEach_diagnostics:
  assumes "forEach (callback letters) xs j s = Inr s'" and "d \<in> set (diagnostics s')"
  shows "d \<in> set (diagnostics s)
         \<or> (\<exists>w k. message d = unresolvedMessage w k)
         \<or> ([CR] \<in> set xs \<and> message d = ''Expected ; after project name.'')
         \<or> (message d = ''Expected project name.'' \<and> [] \<in> set letters)"
  using assms
proof (induction xs arbitrary: j s)
  case Nil
  then show ?case by simp
next
  case (Cons x xs)
  from Cons.prems(1) obtain s1 where
    step: "callback letters x j s = Inr s1" and
    rest: "forEach (callback letters) xs (Suc j) s1 = Inr s'"
    by (auto split: sum.splits)
  from Cons.IH [OF rest Cons.prems(2)] callback_diagnostics [OF step]
  show ?case by auto
qed

lemma split_letters:
  "[] \<notin> set (split text)" "([CR] \<in> set (split text)) = (CR \<in> set text)"
  by (auto simp: split_def)

subsection \<open>The scan does not raise\<close>

lemma wordBoundary_inv:
  assumes "scanInv j s" and "length letter = 1"
  shows "offset (wordBoundary letter s) = int j"
    and "length (formingWord (wordBoundary letter s)) \<le> Suc j"
    and "expectingSemicolon (wordBoundary letter s) = expectingSemicolon s"
  using assms by (auto simp: wordBoundary_def scanInv_def Let_def)

lemma carriageReturn_inv:
  assumes "expectingSemicolon s = Some True \<Longrightarrow> 0 < j \<and> j \<le> length letters"
  shows "\<exists>s'. carriageReturn letters letter j s = Inr s'
           \<and> offset s' = offset s \<and> formingWord s' = formingWord s
           \<and> (expectingSemicolon s' = Some True \<longrightarrow> expectingSemicolon s = Some True)"
  using assms
  by (auto simp: carriageReturn_def elementAt_def Let_def split: option.splits)

lemma keywordTrigger_inv:
  "offset (keywordTrigger letters j s) = offset s"
  "formingWord (keywordTrigger letters j s) = formingWord s"
  "expectingSemicolon (keywordTrigger letters j s) = Some True \<Longrightarrow>
     expectingSemicolon s = Some True \<or> formingWord s = ''project''"
  by (auto simp: keywordTrigger_def Let_def split: if_splits)

lemma callback_inv:
  assumes inv: "scanInv j s" and len: "length letter = 1" and j: "j < length letters"
  shows "\<exists>s'. callback letters letter j s = Inr s' \<and> scanInv (Suc j) s'"
proof -
  let ?w = "wordBoundary letter s"
  have "expectingSemicolon ?w = Some True \<Longrightarrow> 0 < j \<and> j \<le> length letters"
    using inv j wordBoundary_inv(3) [OF inv len] by (auto simp: scanInv_def)
  from carriageReturn_inv [OF this] obtain s1 where
    cr: "carriageReturn letters letter j ?w = Inr s1" and
    off: "offset s1 = offset ?w" and fw: "formingWord s1 = formingWord ?w" and
    es: "expectingSemicolon s1 = Some True \<longrightarrow> expectingSemicolon ?w = Some True"
    by blast
  let ?k = "keywordTrigger letters j s1"
  have "callback letters letter j s = Inr (?k\<lparr>offset := offset ?k + 1\<rparr>)"
    using cr by (simp add: callback_def Let_def)
  moreover have "scanInv (Suc j) (?k\<lparr>offset := offset ?k + 1\<rparr>)"
  proof -
    have 1: "offset ?k = int j"
      using off wordBoundary_inv(1) [OF inv len] by (simp add: keywordTrigger_inv)
    have 2: "length (formingWord ?k) \<le> Suc j"
      using fw wordBoundary_inv(2) [OF inv len] by (simp add: keywordTrigger_inv)
    have 3: "7 \<le> Suc j" if "expectingSemicolon ?k = Some True"
    proof -
      from keywordTrigger_inv(3) [OF that]
      consider "expectingSemicolon s1 = Some True" | "formingWord s1 = ''project''" by blast
      then show ?thesis
      proof cases
        case 1
        with es wordBoundary_inv(3) [OF inv len] inv show ?thesis
          by (simp add: scanInv_def split: if_splits)
      next
        case 2
        with 2 fw wordBoundary_inv(2) [OF inv len] show ?thesis by simp
      qed
    qed
    from 1 2 3 show ?thesis by (auto simp: scanInv_def)
  qed
  ultimately show ?thesis by blast
qed

lemma forEach_inv:
  assumes "scanInv j s" and "\<forall>l \<in> set xs. length l = 1" and "j + length xs \<le> length letters"
  shows "\<exists>s'. forEach (callback letters) xs j s = Inr s' \<and> scanInv (j + length xs) s'"
  using assms
proof (induction xs arbitrary: j s)
  case Nil
  then show ?case by simp
next
  case (Cons x xs)
  from Cons.prems have "length x = 1" and "j < length letters" by auto
  from callback_inv [OF Cons.prems(1) this] obtain s1 where
    step: "callback letters x j s = Inr s1" and inv1: "scanInv (Suc j) s1" by blast
  from Cons.prems have "\<forall>l \<in> set xs. length l = 1" and "Suc j + length xs \<le> length letters"
    by auto
  from Cons.IH [OF inv1 this] step show ?case by auto
qed

lemma scanInv_initialState: "scanInv 0 initialState"
  by (simp add: scanInv_def initialState_def)

lemma stateBefore_inv:
  assumes "j \<le> length text"
  shows "\<exists>s. stateBefore text j = Inr s \<and> scanInv j s"
proof -
  have "\<forall>l \<in> set (take j (split text)). length l = 1"
    by (auto simp: split_def dest!: in_set_takeD)
  moreover have "0 + length (take j (split text)) \<le> length (split text)" by simp
  ultimately obtain s where
    "forEach (callback (split text)) (take j (split text)) 0 initialState = Inr s"
    "scanInv (0 + length (take j (split text))) s"
    using forEach_inv [OF scanInv_initialState] by blast
  moreover have "length (take j (split text)) = j"
    using assms by (simp add: split_def)
  ultimately show ?thesis by (simp add: stateBefore_def)
qed

lemma scan_stateBefore: "scan text = stateBefore text (length text)"
  by (simp add: scan_def stateBefore_def split_def)

lemma forEach_append:
  "forEach f (xs @ ys) j s =
     (case forEach f xs j s of Inl e \<Rightarrow> Inl e | Inr s' \<Rightarrow> forEach f ys (j + length xs) s')"
  by (induction xs arbitrary: j s) (auto split: sum.splits)

lemma scan_from_stateBefore:
  "scan text =
     (case stateBefore text j of
        Inl e \<Rightarrow> Inl e
      | Inr s \<Rightarrow> forEach (callback (split text)) (drop j (split text)) (min j (length text)) s)"
proof -
  have len: "0 + length (take j (split text)) = min j (length text)"
    by (simp add: split_def min.commute)
  have "forEach (callback (split text)) (take j (split text) @ drop j (split text)) 0 initialState =
     (case stateBefore text j of
        Inl e \<Rightarrow> Inl e
      | Inr s \<Rightarrow> forEach (callback (split text)) (drop j (split text)) (min j (length text)) s)"
    unfolding forEach_append len by (simp add: stateBefore_def Let_def)
  then show ?thesis by (simp add: scan_def Let_def)
qed

lemma scan_total: "\<exists>s. scan text = Inr s \<and> scanInv (length text) s"
  using stateBefore_inv [of "length text" "text"] by (simp add: scan_stateBefore)

lemma validateTextDocument_settings:
  "validateTextDocument settings text = validateTextDocument defaultSettings text"
  by (simp add: validateTextDocument_def)

lemma validateTextDocument_message:
  assumes "\<And>w k. m \<noteq> unresolvedMessage w k"
    and "m = ''Expected ; after project name.'' \<Longrightarrow> CR \<notin> set text"
  shows "\<exists>ds. validateTextDocument settings text = Inr ds \<and> m \<notin> set (map message ds)"
proof -
  from scan_total obtain s where s: "scan text = Inr s" by blast
  have "message d \<noteq> m" if "d \<in> set (diagnostics s)" for d
  proof -
    from s have "forEach (callback (split text)) (split text) 0 initialState = Inr s"
      by (simp add: scan_def Let_def)
    from forEach_diagnostics [OF this that] assms show ?thesis
      by (auto simp: initialState_def split_letters)
  qed
  then have "m \<notin> set (map message (diagnostics s))" by auto
  with s show ?thesis by (simp add: validateTextDocument_def)
qed

section \<open>The validator on the documents of the specification\<close>

text \<open>
  Claim C1, as the specification has it: for the text \<^verbatim>\<open>project;\<close> followed by carriage
  return and line feed, the validator emits a diagnostic \<^verbatim>\<open>Expected project name.\<close>
  The code emits no diagnostic at all for this text, so the claim fails there.
\<close>

theorem project_semicolon_no_diagnostic:
  "validateTextDocument defaultSettings (''project;'' @ [CR, LF]) = Inr []"
  by code_simp

text \<open>
  Claim C1, amended: for that text the validator emits no diagnostic. The word formed
  equals \<^verbatim>\<open>project\<close> at index 6; the letter two positions ahead, at index 8, exists (it
  is the carriage return), so the branch of the missing project name is not taken. The
  three flags are set there, the word \<^verbatim>\<open>project;\<close> is not reported, and the semicolon
  stands before the carriage return.
\<close>

theorem project_semicolon_trace:
  "stateBefore (''project;'' @ [CR, LF]) 7 =
     Inr \<lparr>diagnostics = [], offset = 7, formingWord = ''project'', keywordMatched = True,
          userDefinedString = True, expectingSemicolon = Some True\<rparr>
   \<and> elementAt (split (''project;'' @ [CR, LF])) (6 + 2) = Some [CR]
   \<and> elementAt (split (''project;'' @ [CR, LF])) (8 - 1) = Some '';''
   \<and> validateTextDocument settings (''project;'' @ [CR, LF]) = Inr []"
proof -
  have "validateTextDocument defaultSettings (''project;'' @ [CR, LF]) = Inr []"
    by code_simp
  then have "validateTextDocument settings (''project;'' @ [CR, LF]) = Inr []"
    by (simp only: validateTextDocument_settings [of settings])
  moreover have "stateBefore (''project;'' @ [CR, LF]) 7 =
     Inr \<lparr>diagnostics = [], offset = 7, formingWord = ''project'', keywordMatched = True,
          userDefinedString = True, expectingSemicolon = Some True\<rparr>"
    by code_simp
  moreover have "elementAt (split (''project;'' @ [CR, LF])) (6 + 2) = Some [CR]"
    by code_simp
  moreover have "elementAt (split (''project;'' @ [CR, LF])) (8 - 1) = Some '';''"
    by code_simp
  ultimately show ?thesis by blast
qed

text \<open>
  Claim C2: for the text \<^verbatim>\<open>project MyGame\<close> followed by carriage return and line feed,
  the validator emits exactly one diagnostic, \<^verbatim>\<open>Expected ; after project name.\<close>, from
  offset 13 to offset 14, the carriage return being at index 14. The word \<^verbatim>\<open>MyGame\<close>
  is not reported: on entry at the carriage return it is the word formed, and
  \<^verbatim>\<open>userDefinedString\<close> is set.
\<close>

theorem project_name_without_semicolon:
  "validateTextDocument settings (''project MyGame'' @ [CR, LF]) =
     Inr [\<lparr>severity = Error, rangeStart = 13, rangeEnd = 14,
           message = ''Expected ; after project name.'', source = ''LUMA''\<rparr>]
   \<and> stateBefore (''project MyGame'' @ [CR, LF]) 14 =
     Inr \<lparr>diagnostics = [], offset = 14, formingWord = ''MyGame'', keywordMatched = False,
          userDefinedString = True, expectingSemicolon = Some True\<rparr>"
proof -
  have "validateTextDocument defaultSettings (''project MyGame'' @ [CR, LF]) =
     Inr [\<lparr>severity = Error, rangeStart = 13, rangeEnd = 14,
           message = ''Expected ; after project name.'', source = ''LUMA''\<rparr>]"
    by code_simp
  then have "validateTextDocument settings (''project MyGame'' @ [CR, LF]) =
     Inr [\<lparr>severity = Error, rangeStart = 13, rangeEnd = 14,
           message = ''Expected ; after project name.'', source = ''LUMA''\<rparr>]"
    by (simp only: validateTextDocument_settings [of settings])
  moreover have "stateBefore (''project MyGame'' @ [CR, LF]) 14 =
     Inr \<lparr>diagnostics = [], offset = 14, formingWord = ''MyGame'', keywordMatched = False,
          userDefinedString = True, expectingSemicolon = Some True\<rparr>"
    by code_simp
  ultimately show ?thesis by blast
qed

text \<open>
  Claim C3: for the text \<^verbatim>\<open>projectX\<close> followed by carriage return and line feed, the
  word \<^verbatim>\<open>projectX\<close> is not reported as unresolved: the flags are set when the word
  formed is \<^verbatim>\<open>project\<close> (on entry at index 7) and still hold when it is \<^verbatim>\<open>projectX\<close>
  (on entry at the carriage return, index 8). The check of the terminator is armed, and
  the only diagnostic is \<^verbatim>\<open>Expected ; after project name.\<close> at the carriage return.
\<close>

theorem projectX_single_token:
  "validateTextDocument settings (''projectX'' @ [CR, LF]) =
     Inr [\<lparr>severity = Error, rangeStart = 7, rangeEnd = 8,
           message = ''Expected ; after project name.'', source = ''LUMA''\<rparr>]
   \<and> stateBefore (''projectX'' @ [CR, LF]) 7 =
     Inr \<lparr>diagnostics = [], offset = 7, formingWord = ''project'', keywordMatched = True,
          userDefinedString = True, expectingSemicolon = Some True\<rparr>
   \<and> stateBefore (''projectX'' @ [CR, LF]) 8 =
     Inr \<lparr>diagnostics = [], offset = 8, formingWord = ''projectX'', keywordMatched = True,
          userDefinedString = True, expectingSemicolon = Some True\<rparr>"
proof -
  have "validateTextDocument defaultSettings (''projectX'' @ [CR, LF]) =
     Inr [\<lparr>severity = Error, rangeStart = 7, rangeEnd = 8,
           message = ''Expected ; after project name.'', source = ''LUMA''\<rparr>]"
    by code_simp
  then have "validateTextDocument settings (''projectX'' @ [CR, LF]) =
     Inr [\<lparr>severity = Error, rangeStart = 7, rangeEnd = 8,
           message = ''Expected ; after project name.'', source = ''LUMA''\<rparr>]"
    by (simp only: validateTextDocument_settings [of settings])
  moreover have "stateBefore (''projectX'' @ [CR, LF]) 7 =
     Inr \<lparr>diagnostics = [], offset = 7, formingWord = ''project'', keywordMatched = True,
          userDefinedString = True, expectingSemicolon = Some True\<rparr>"
    by code_simp
  moreover have "stateBefore (''projectX'' @ [CR, LF]) 8 =
     Inr \<lparr>diagnostics = [], offset = 8, formingWord = ''projectX'', keywordMatched = True,
          userDefinedString = True, expectingSemicolon = Some True\<rparr>"
    by code_simp
  ultimately show ?thesis by blast
qed

text \<open>
  Claim C7: for the text \<^verbatim>\<open>charakters\<close> followed by carriage return and line feed, the
  validator emits exactly one diagnostic, for the unresolved word, and its message ends
  with the suggestion of \<^verbatim>\<open>characters\<close>: the similarity of the two words with
  substrings of length 2 is 14/18, which is above 7/10, so \<^verbatim>\<open>findKeyword\<close> returns
  \<^verbatim>\<open>characters\<close>.
\<close>

theorem charakters_suggestion:
  "stringSimilarity ''charakters'' ''characters'' 2 False = 14 / 18
   \<and> stringSimilarity ''charakters'' ''characters'' 2 False > 7 / 10
   \<and> findKeyword ''charakters'' = Some ''characters''
   \<and> validateTextDocument settings (''charakters'' @ [CR, LF]) =
     Inr [\<lparr>severity = Error, rangeStart = 0, rangeEnd = 10,
           message = ''Cannot find 'charakters'. Did you mean 'characters'?'',
           source = ''LUMA''\<rparr>]"
proof -
  have "validateTextDocument defaultSettings (''charakters'' @ [CR, LF]) =
     Inr [\<lparr>severity = Error, rangeStart = 0, rangeEnd = 10,
           message = ''Cannot find 'charakters'. Did you mean 'characters'?'',
           source = ''LUMA''\<rparr>]"
    by code_simp
  then have "validateTextDocument settings (''charakters'' @ [CR, LF]) =
     Inr [\<lparr>severity = Error, rangeStart = 0, rangeEnd = 10,
           message = ''Cannot find 'charakters'. Did you mean 'characters'?'',
           source = ''LUMA''\<rparr>]"
    by (simp only: validateTextDocument_settings [of settings])
  moreover have "stringSimilarity ''charakters'' ''characters'' 2 False = 14 / 18"
    by code_simp
  moreover have "stringSimilarity ''charakters'' ''characters'' 2 False > 7 / 10"
    by code_simp
  moreover have "findKeyword ''charakters'' = Some ''characters''"
    by code_simp
  ultimately show ?thesis by blast
qed

section \<open>The validator on every document\<close>

text \<open>
  Claim C4: for every text without a carriage return, the validator returns diagnostics
  none of which has the message \<^verbatim>\<open>Expected ; after project name.\<close>
\<close>

theorem no_terminator_diagnostic_without_CR:
  assumes "CR \<notin> set text"
  shows "\<exists>ds. validateTextDocument settings text = Inr ds
           \<and> ''Expected ; after project name.'' \<notin> set (map message ds)"
  using assms by (intro validateTextDocument_message) (simp_all add: unresolvedMessage_neq)

text \<open>
  The text \<^verbatim>\<open>project MyGame\<close> ended by a line feed alone: a declaration without a
  semicolon, and no diagnostic.
\<close>

theorem no_terminator_diagnostic_without_CR_witness:
  "CR \<notin> set (''project MyGame'' @ [LF])
   \<and> (\<exists>ds. validateTextDocument defaultSettings (''project MyGame'' @ [LF]) = Inr ds
          \<and> ''Expected ; after project name.'' \<notin> set (map message ds))
   \<and> validateTextDocument defaultSettings (''project MyGame'' @ [LF]) = Inr []"
proof -
  have h: "CR \<notin> set (''project MyGame'' @ [LF])" by simp
  have "validateTextDocument defaultSettings (''project MyGame'' @ [LF]) = Inr []"
    by code_simp
  with h no_terminator_diagnostic_without_CR [OF h, of defaultSettings] show ?thesis
    by blast
qed

text \<open>
  Claim C5: for every text, the validator returns diagnostics none of which has the
  message \<^verbatim>\<open>Expected project name.\<close> The condition of that branch asks for a letter two
  positions ahead of length 0; at no index \<open>i\<close> of the array of letters it holds, since
  a letter that exists has length 1 and a missing one gives \<^verbatim>\<open>undefined\<close>.
\<close>

theorem missing_project_name_never_emitted:
  "(\<exists>ds. validateTextDocument settings text = Inr ds
        \<and> ''Expected project name.'' \<notin> set (map message ds))
   \<and> \<not> (case elementAt (split text) i of None \<Rightarrow> False | Some ahead \<Rightarrow> length ahead = 0)
   \<and> list_all (\<lambda>letter. length letter = 1) (split text)"
proof -
  have "\<exists>ds. validateTextDocument settings text = Inr ds
        \<and> ''Expected project name.'' \<notin> set (map message ds)"
    by (intro validateTextDocument_message) (simp_all add: unresolvedMessage_neq)
  moreover have "\<not> (case elementAt (split text) i of
                      None \<Rightarrow> False | Some ahead \<Rightarrow> length ahead = 0)"
    using split_letters(1) [of "text"]
    by (auto split: option.splits dest: elementAt_in_set)
  moreover have "list_all (\<lambda>letter. length letter = 1) (split text)"
    by (simp add: split_def list_all_iff)
  ultimately show ?thesis by blast
qed

text \<open>The text \<^verbatim>\<open>project\<close> alone, where no letter stands two positions after the word.\<close>

theorem missing_project_name_never_emitted_witness:
  "(\<exists>ds. validateTextDocument defaultSettings ''project'' = Inr ds
        \<and> ''Expected project name.'' \<notin> set (map message ds))
   \<and> elementAt (split ''project'') (6 + 2) = None
   \<and> validateTextDocument defaultSettings ''project'' = Inr []"
proof -
  have "elementAt (split ''project'') (6 + 2) = None" by code_simp
  moreover have "validateTextDocument defaultSettings ''project'' = Inr []" by code_simp
  ultimately show ?thesis
    using missing_project_name_never_emitted [of defaultSettings "''project''" 8] by blast
qed

text \<open>
  Claim C6: for every text and every value of the settings, the validator returns a list
  of diagnostics and raises nothing. On entry at every index \<open>j\<close> the scan has not
  raised and the offset is \<open>j\<close>; when \<^verbatim>\<open>expectingSemicolon\<close> is true there, \<open>j\<close> is at
  least 7 and the letter at \<open>j - 1\<close> exists. The letter at \<open>j + 2\<close> is read through the
  optional access, which raises nothing.
\<close>

theorem validateTextDocument_never_raises:
  "(\<exists>ds. validateTextDocument settings text = Inr ds)
   \<and> (\<forall>j \<le> length text. \<exists>s. stateBefore text j = Inr s \<and> offset s = int j
         \<and> (expectingSemicolon s = Some True \<longrightarrow>
              7 \<le> j \<and> (\<exists>previous. elementAt (split text) (int j - 1) = Some previous)))"
proof -
  from scan_total obtain s where "scan text = Inr s" by blast
  then have "\<exists>ds. validateTextDocument settings text = Inr ds"
    by (simp add: validateTextDocument_def)
  moreover have "\<exists>s. stateBefore text j = Inr s \<and> offset s = int j
         \<and> (expectingSemicolon s = Some True \<longrightarrow>
              7 \<le> j \<and> (\<exists>previous. elementAt (split text) (int j - 1) = Some previous))"
    if "j \<le> length text" for j
  proof -
    from stateBefore_inv [OF that] obtain s where
      s: "stateBefore text j = Inr s" and inv: "scanInv j s" by blast
    have "7 \<le> j \<and> (\<exists>previous. elementAt (split text) (int j - 1) = Some previous)"
      if "expectingSemicolon s = Some True"
      using that inv \<open>j \<le> length text\<close> by (auto simp: scanInv_def elementAt_def split_def)
    with s inv show ?thesis by (auto simp: scanInv_def)
  qed
  ultimately show ?thesis by blast
qed

text \<open>
  The empty text, and the text \<^verbatim>\<open>project MyGame\<close> with its line end on entry at the
  carriage return, where \<^verbatim>\<open>expectingSemicolon\<close> is true.
\<close>

theorem validateTextDocument_never_raises_witness:
  "validateTextDocument defaultSettings [] = Inr []
   \<and> (\<exists>ds. validateTextDocument defaultSettings (''project MyGame'' @ [CR, LF]) = Inr ds)
   \<and> (14::nat) \<le> length (''project MyGame'' @ [CR, LF])
   \<and> (\<exists>s. stateBefore (''project MyGame'' @ [CR, LF]) 14 = Inr s \<and> offset s = 14
         \<and> expectingSemicolon s = Some True)
   \<and> elementAt (split (''project MyGame'' @ [CR, LF])) (14 - 1) = Some ''e''"
proof -
  have 1: "validateTextDocument defaultSettings [] = Inr []" by code_simp
  have 2: "(14::nat) \<le> length (''project MyGame'' @ [CR, LF])" by simp
  have 3: "stateBefore (''project MyGame'' @ [CR, LF]) 14 =
     Inr \<lparr>diagnostics = [], offset = 14, formingWord = ''MyGame'', keywordMatched = False,
          userDefinedString = True, expectingSemicolon = Some True\<rparr>"
    by code_simp
  have 4: "elementAt (split (''project MyGame'' @ [CR, LF])) (14 - 1) = Some ''e''"
    by code_simp
  from validateTextDocument_never_raises [of defaultSettings "''project MyGame'' @ [CR, LF]"]
  have "\<exists>ds. validateTextDocument defaultSettings (''project MyGame'' @ [CR, LF]) = Inr ds"
    by blast
  with 1 2 3 4 show ?thesis by simp
qed

section \<open>Completion\<close>

text \<open>
  Claim C10: the handler of completion returns exactly two items, labelled
  \<^verbatim>\<open>characters\<close> and \<^verbatim>\<open>project\<close> in this order, whatever the position of the request;
  the first carries the identifier 1. Resolving an item with the identifier 1 sets a
  detail that is not empty and changes nothing else; resolving an item with another
  identifier returns it unchanged.
\<close>

theorem completion_items:
  "length (onCompletion position) = 2
   \<and> map label (onCompletion position) = [''characters'', ''project'']
   \<and> map data (onCompletion position) = [Number 1, Number 2]
   \<and> (data item = Number 1 \<longrightarrow>
        onCompletionResolve item =
          item\<lparr>detail := Some ''Specifies all the characters in the project.''\<rparr>
        \<and> ''Specifies all the characters in the project.'' \<noteq> [])
   \<and> (data item \<noteq> Number 1 \<longrightarrow> onCompletionResolve item = item)"
  by (simp add: onCompletion_def onCompletionResolve_def)

text \<open>The two items of the list themselves, resolved.\<close>

theorem completion_items_witness:
  "data (onCompletion \<lparr>uri = ''a.lotus'', line = 0, character = 0\<rparr> ! 0) = Number 1
   \<and> detail (onCompletionResolve (onCompletion \<lparr>uri = ''a.lotus'', line = 0, character = 0\<rparr> ! 0))
       = Some ''Specifies all the characters in the project.''
   \<and> data (onCompletion \<lparr>uri = ''a.lotus'', line = 0, character = 0\<rparr> ! 1) \<noteq> Number 1
   \<and> onCompletionResolve (onCompletion \<lparr>uri = ''a.lotus'', line = 0, character = 0\<rparr> ! 1)
       = onCompletion \<lparr>uri = ''a.lotus'', line = 0, character = 0\<rparr> ! 1"
proof -
  let ?items = "onCompletion \<lparr>uri = ''a.lotus'', line = 0, character = 0\<rparr>"
  have 1: "data (?items ! 0) = Number 1" by (simp add: onCompletion_def)
  have 2: "data (?items ! 1) \<noteq> Number 1" by (simp add: onCompletion_def)
  from completion_items [of _ "?items ! 1"] 2
  have "onCompletionResolve (?items ! 1) = ?items ! 1" by blast
  moreover have "detail (onCompletionResolve (?items ! 0))
       = Some ''Specifies all the characters in the project.''"
    by (simp add: onCompletion_def onCompletionResolve_def)
  ultimately show ?thesis using 1 2 by simp
qed

end
